theory Spec2Isabelle
  imports Complex_Main "HOL-Library.Char_ord" "HOL-Library.List_Lexorder"
begin

section \<open>Python values\<close>

text \<open>
  The monitor reads loosely typed records: a transaction is a dict (or a pandas row)
  whose values may be \<^verbatim>\<open>None\<close>, numbers or text. The values modelled are
  \<^verbatim>\<open>None\<close>, \<^verbatim>\<open>int\<close>, \<^verbatim>\<open>float\<close> (finite, infinite or NaN) and \<^verbatim>\<open>str\<close>.
  A finite float is held as the rational number it denotes; a \<^verbatim>\<open>str\<close> is its
  sequence of characters, one \<open>char\<close> each (code points below 256), so that
  \<open>length\<close> is Python's \<^verbatim>\<open>len\<close>.
\<close>

datatype pyfloat = Finite rat | PosInf | NegInf | NaN

datatype pyval = PyNone | PyInt int | PyFloat pyfloat | PyStr string

datatype pyerror = KeyError string | TypeError | ValueError

type_synonym transaction = "string \<rightharpoonup> pyval"

text \<open>\<^verbatim>\<open>transaction[field]\<close>: a key that is absent raises KeyError.\<close>

definition getitem :: "transaction \<Rightarrow> string \<Rightarrow> pyerror + pyval" where
  "getitem tx k = (case tx k of None \<Rightarrow> Inl (KeyError k) | Some v \<Rightarrow> Inr v)"

text \<open>\<^verbatim>\<open>pd.isna\<close> on a scalar: true for \<^verbatim>\<open>None\<close> and for a float NaN.\<close>

fun isna :: "pyval \<Rightarrow> bool" where
  "isna PyNone = True"
| "isna (PyFloat NaN) = True"
| "isna _ = False"

text \<open>
  Ordering against a numeric literal. Python compares \<^verbatim>\<open>int\<close> and \<^verbatim>\<open>float\<close>
  exactly; every comparison with NaN is false; \<^verbatim>\<open>None\<close> and \<^verbatim>\<open>str\<close> are not
  ordered against a number and raise TypeError.
\<close>

fun float_le :: "pyfloat \<Rightarrow> rat \<Rightarrow> bool" where
  "float_le (Finite r) c = (r \<le> c)"
| "float_le NegInf c = True"
| "float_le PosInf c = False"
| "float_le NaN c = False"

fun float_gt :: "pyfloat \<Rightarrow> rat \<Rightarrow> bool" where
  "float_gt (Finite r) c = (r > c)"
| "float_gt PosInf c = True"
| "float_gt NegInf c = False"
| "float_gt NaN c = False"

fun py_le :: "pyval \<Rightarrow> rat \<Rightarrow> pyerror + bool" where
  "py_le (PyInt i) c = Inr (of_int i \<le> c)"
| "py_le (PyFloat f) c = Inr (float_le f c)"
| "py_le PyNone c = Inl TypeError"
| "py_le (PyStr s) c = Inl TypeError"

fun py_gt :: "pyval \<Rightarrow> rat \<Rightarrow> pyerror + bool" where
  "py_gt (PyInt i) c = Inr (of_int i > c)"
| "py_gt (PyFloat f) c = Inr (float_gt f c)"
| "py_gt PyNone c = Inl TypeError"
| "py_gt (PyStr s) c = Inl TypeError"

subsection \<open>Text of a value\<close>

definition digit_char :: "nat \<Rightarrow> char" where
  "digit_char d = char_of (48 + d)"

function nat_str :: "nat \<Rightarrow> string" where
  "nat_str n = (if n < 10 then [digit_char n] else nat_str (n div 10) @ [digit_char (n mod 10)])"
  by pat_completeness auto
termination
  by (relation "measure id") auto

declare nat_str.simps [simp del]

definition int_str :: "int \<Rightarrow> string" where
  "int_str i = (if i < 0 then CHR ''-'' # nat_str (nat (- i)) else nat_str (nat i))"

text \<open>
  \<^verbatim>\<open>str(v)\<close>. The shortest round-trip text that Python prints for a finite float is
  the interpreter's and not part of the repository: it is the parameter \<open>fr\<close>.
\<close>

fun py_str :: "(rat \<Rightarrow> string) \<Rightarrow> pyval \<Rightarrow> string" where
  "py_str fr PyNone = ''None''"
| "py_str fr (PyInt i) = int_str i"
| "py_str fr (PyFloat (Finite r)) = fr r"
| "py_str fr (PyFloat PosInf) = ''inf''"
| "py_str fr (PyFloat NegInf) = ''-inf''"
| "py_str fr (PyFloat NaN) = ''nan''"
| "py_str fr (PyStr s) = s"

text \<open>\<^verbatim>\<open>str.upper\<close> on the ASCII letters.\<close>

definition upper_char :: "char \<Rightarrow> char" where
  "upper_char c =
     (if CHR ''a'' \<le> c \<and> c \<le> CHR ''z'' then char_of (of_char c - (32::nat)) else c)"

definition upper :: "string \<Rightarrow> string" where
  "upper s = map upper_char s"

section \<open>Validator: \<^verbatim>\<open>validate_transaction\<close>\<close>

definition required_fields :: "string list" where
  "required_fields = [''merchant_id'', ''amount'', ''currency'', ''card_type'']"

text \<open>
  The loop over the required fields: each field is read (KeyError when the key is
  absent) and a null value appends \<^verbatim>\<open>MISSING_<FIELD>\<close> to the codes so far.
\<close>

fun check_required :: "transaction \<Rightarrow> string list \<Rightarrow> string list \<Rightarrow> pyerror + string list" where
  "check_required tx [] codes = Inr codes"
| "check_required tx (field # fields) codes =
     (case getitem tx field of
        Inl e \<Rightarrow> Inl e
      | Inr v \<Rightarrow>
          check_required tx fields
            (if isna v then codes @ [''MISSING_'' @ upper field] else codes))"

definition validate_transaction ::
  "(rat \<Rightarrow> string) \<Rightarrow> transaction \<Rightarrow> pyerror + (bool \<times> string list)" where
  "validate_transaction fr tx =
     (case check_required tx required_fields [] of
        Inl e \<Rightarrow> Inl e
      | Inr codes1 \<Rightarrow>
     (case getitem tx ''amount'' of
        Inl e \<Rightarrow> Inl e
      | Inr amount \<Rightarrow>
     (case py_le amount 0 of
        Inl e \<Rightarrow> Inl e
      | Inr nonpositive \<Rightarrow>
     (let codes2 = (if nonpositive then codes1 @ [''INVALID_AMOUNT''] else codes1) in
     (case getitem tx ''currency'' of
        Inl e \<Rightarrow> Inl e
      | Inr currency \<Rightarrow>
     (let codes3 = (if length (py_str fr currency) \<noteq> 3
                    then codes2 @ [''INVALID_CURRENCY''] else codes2) in
     (case getitem tx ''processing_time'' of
        Inl e \<Rightarrow> Inl e
      | Inr ptime \<Rightarrow>
     (case py_gt ptime 4 of
        Inl e \<Rightarrow> Inl e
      | Inr slow \<Rightarrow>
     (let codes4 = (if slow then codes3 @ [''SLA_BREACH''] else codes3) in
      Inr (length codes4 = 0, codes4))))))))))"

section \<open>Double-precision arithmetic\<close>

text \<open>Rounding to the nearest integer, a tie going to the even neighbour.\<close>

definition round_half_even :: "rat \<Rightarrow> int" where
  "round_half_even x =
     (let f = \<lfloor>x\<rfloor>; d = x - of_int f
      in if d < 1 / 2 then f else if d > 1 / 2 then f + 1 else if even f then f else f + 1)"

text \<open>
  SQLite computes in IEEE 754 doubles: each operation gives the double nearest to the
  exact result, a tie going to the even mantissa. A double is held as the rational
  number it denotes. \<open>round_pos\<close> scales a positive number by powers of two until it
  has 53 binary digits before the point, rounds it to an integer and scales back; the
  exponent is unbounded, so overflow and subnormal numbers are not modelled.
\<close>

function round_pos :: "rat \<Rightarrow> rat" where
  "round_pos x =
     (if x \<le> 0 then 0
      else if 2 ^ 53 \<le> x then 2 * round_pos (x / 2)
      else if x < 2 ^ 52 then round_pos (2 * x) / 2
      else of_int (round_half_even x))"
  by pat_completeness auto
termination
proof (relation "measure (\<lambda>x. if 2 ^ 52 \<le> x then nat \<lceil>x\<rceil> else 2 ^ 53 + nat \<lceil>2 ^ 53 / x\<rceil>)")
  show "wf (measure (\<lambda>x::rat. if 2 ^ 52 \<le> x then nat \<lceil>x\<rceil> else 2 ^ 53 + nat \<lceil>2 ^ 53 / x\<rceil>))"
    by simp
next
  fix x :: rat
  assume "\<not> x \<le> 0" "2 ^ 53 \<le> x"
  then have "\<lceil>x / 2\<rceil> < \<lceil>x\<rceil>"
    by (simp add: ceiling_less_iff) linarith
  with \<open>2 ^ 53 \<le> x\<close>
  show "(x / 2, x) \<in> measure (\<lambda>x. if 2 ^ 52 \<le> x then nat \<lceil>x\<rceil> else 2 ^ 53 + nat \<lceil>2 ^ 53 / x\<rceil>)"
    by simp
next
  fix x :: rat
  assume a: "\<not> x \<le> 0" "\<not> 2 ^ 53 \<le> x" "x < 2 ^ 52"
  show "(2 * x, x) \<in> measure (\<lambda>x. if 2 ^ 52 \<le> x then nat \<lceil>x\<rceil> else 2 ^ 53 + nat \<lceil>2 ^ 53 / x\<rceil>)"
  proof (cases "2 ^ 52 \<le> 2 * x")
    case True
    from a have "\<lceil>2 * x\<rceil> \<le> 2 ^ 53"
      by (simp add: ceiling_le_iff)
    then have "nat \<lceil>2 * x\<rceil> \<le> 2 ^ 53"
      by (simp add: nat_le_iff)
    moreover from a have "0 < nat \<lceil>2 ^ 53 / x\<rceil>"
      by simp
    ultimately have "nat \<lceil>2 * x\<rceil> < 2 ^ 53 + nat \<lceil>2 ^ 53 / x\<rceil>"
      by linarith
    with True a show ?thesis by simp
  next
    case False
    from a have "2 < 2 ^ 53 / x"
      by (simp add: less_divide_eq)
    then have "\<lceil>2 ^ 53 / x / 2\<rceil> < \<lceil>2 ^ 53 / x\<rceil>"
      by (simp add: ceiling_less_iff) linarith
    moreover have "2 ^ 53 / (2 * x) = 2 ^ 53 / x / 2"
      by simp
    moreover from a have "0 < \<lceil>2 ^ 53 / x / 2\<rceil>"
      by simp
    ultimately show ?thesis using False a by simp
  qed
qed

declare round_pos.simps [simp del]

definition round_double :: "rat \<Rightarrow> rat" where
  "round_double x = (if x < 0 then - round_pos (- x) else round_pos x)"

text \<open>
  The running sum of \<^verbatim>\<open>SUM\<close> and \<^verbatim>\<open>AVG\<close> over doubles: it starts at 0.0 and each
  value is added to it, the result rounded.
\<close>

definition double_sum :: "rat list \<Rightarrow> rat" where
  "double_sum xs = foldl (\<lambda>acc v. round_double (acc + v)) 0 xs"

section \<open>Transaction store and the aggregation query\<close>

text \<open>
  A calendar date, as Python's \<^verbatim>\<open>datetime.date\<close> and SQLite's date functions hold it.
  Both print it as \<^verbatim>\<open>%04d-%02d-%02d\<close>.
\<close>

record py_date =
  year :: nat
  month :: nat
  day :: nat

definition zero_pad :: "nat \<Rightarrow> string \<Rightarrow> string" where
  "zero_pad w s = replicate (w - length s) (CHR ''0'') @ s"

definition iso_date :: "py_date \<Rightarrow> string" where
  "iso_date d =
     zero_pad 4 (nat_str (year d)) @ ''-'' @ zero_pad 2 (nat_str (month d)) @ ''-'' @
     zero_pad 2 (nat_str (day d))"

text \<open>
  A row of the \<^verbatim>\<open>transactions\<close> table, with the three columns the query reads.
  A timestamp that SQLite takes as a time value is the calendar date and the time of
  day it denotes; \<open>None\<close> is a NULL timestamp or one that is no time value. The other
  two columns are NULL (\<open>None\<close>) or hold a value.
\<close>

record db_timestamp =
  ts_date :: py_date
  ts_time :: nat

record db_row =
  timestamp :: "db_timestamp option"
  processing_time :: "rat option"
  error_code :: "string option"

text \<open>\<^verbatim>\<open>DATE(timestamp)\<close>: the date as text, NULL when the timestamp is no time value.\<close>

definition sql_DATE :: "db_timestamp option \<Rightarrow> string option" where
  "sql_DATE ts = map_option (\<lambda>t. iso_date (ts_date t)) ts"

text \<open>
  \<^verbatim>\<open>WHERE DATE(timestamp) BETWEEN '{start_date}' AND '{end_date}'\<close>: a comparison of
  text, byte by byte; a row whose date is NULL is not selected.
\<close>

definition where_between :: "string \<Rightarrow> string \<Rightarrow> db_row \<Rightarrow> bool" where
  "where_between lo hi r =
     (case sql_DATE (timestamp r) of None \<Rightarrow> False | Some d \<Rightarrow> lo \<le> d \<and> d \<le> hi)"

text \<open>\<^verbatim>\<open>GROUP BY DATE(timestamp) ORDER BY DATE(timestamp)\<close>: the distinct keys, ascending.\<close>

definition group_keys :: "db_row list \<Rightarrow> string list" where
  "group_keys rows = sort (remdups (List.map_filter (\<lambda>r. sql_DATE (timestamp r)) rows))"

text \<open>
  \<^verbatim>\<open>AVG\<close> skips NULL and is NULL when no value is left; otherwise it is the
  running sum of the values divided by their number, in doubles.
\<close>

definition sql_AVG :: "rat option list \<Rightarrow> rat option" where
  "sql_AVG col =
     (let xs = List.map_filter id col
      in if xs = [] then None else Some (round_double (double_sum xs / of_nat (length xs))))"

text \<open>
  \<^verbatim>\<open>CASE WHEN error_code IS NOT NULL THEN 1 ELSE 0 END\<close> and
  \<^verbatim>\<open>CASE WHEN processing_time > 4.0 THEN 1 ELSE 0 END\<close>; a comparison with NULL is
  not true, so the second takes the ELSE branch on a NULL processing time.
\<close>

definition case_error :: "db_row \<Rightarrow> int" where
  "case_error r = (if error_code r \<noteq> None then 1 else 0)"

definition case_breach :: "db_row \<Rightarrow> int" where
  "case_breach r = (case processing_time r of None \<Rightarrow> 0 | Some p \<Rightarrow> if p > 4 then 1 else 0)"

text \<open>
  \<^verbatim>\<open>pd.read_sql_query\<close> on a column of REAL and NULL values: a column of NULL only
  is kept as \<^verbatim>\<open>None\<close> objects, otherwise the column becomes floats and NULL
  becomes NaN.
\<close>

definition read_float_column :: "rat option list \<Rightarrow> pyval list" where
  "read_float_column col =
     (if list_all (\<lambda>x. x = None) col then map (\<lambda>x. PyNone) col
      else map (\<lambda>x. case x of None \<Rightarrow> PyFloat NaN | Some v \<Rightarrow> PyFloat (Finite v)) col)"

text \<open>
  A row of the data frame that \<^verbatim>\<open>analyze_performance\<close> returns, and the query:
  the rows of the range, one group per distinct date in ascending order, and the five
  columns of each group. The error rate is \<^verbatim>\<open>SUM(...) * 100.0 / COUNT(*)\<close>: the
  integer sum, its product by 100.0 and the count are exact in doubles (they are
  below \<open>2^53\<close> for any table SQLite can hold), and the quotient is rounded.
\<close>

record daily_metrics =
  date :: string
  total_transactions :: int
  avg_response_time :: pyval
  error_rate :: rat
  sla_breaches :: int

definition analyze_performance :: "db_row list \<Rightarrow> py_date \<Rightarrow> py_date \<Rightarrow> daily_metrics list" where
  "analyze_performance store start_date end_date =
     (let selected = filter (where_between (iso_date start_date) (iso_date end_date)) store;
          keys = group_keys selected;
          groups = map (\<lambda>k. filter (\<lambda>r. sql_DATE (timestamp r) = Some k) selected) keys;
          avgs = read_float_column (map (\<lambda>g. sql_AVG (map processing_time g)) groups)
      in map (\<lambda>(k, g, a).
            \<lparr> date = k,
              total_transactions = int (length g),
              avg_response_time = a,
              error_rate =
                round_double (of_int (sum_list (map case_error g)) * 100 / of_nat (length g)),
              sla_breaches = sum_list (map case_breach g) \<rparr>)
          (zip keys (zip groups avgs)))"

section \<open>SLA evaluator: \<^verbatim>\<open>generate_action_items\<close>\<close>

text \<open>The list \<^verbatim>\<open>actions\<close> as the three tests build it.\<close>

definition action_list :: "daily_metrics \<Rightarrow> pyerror + string list" where
  "action_list metrics =
     (case py_gt (avg_response_time metrics) 4 of
        Inl e \<Rightarrow> Inl e
      | Inr slow \<Rightarrow>
     (let actions1 = (if slow
            then [] @ [''- URGENT: Investigate high response times - SLA breach detected'']
            else []);
          actions2 = (if error_rate metrics > 1
            then actions1 @ [''- Analyze error patterns and implement corrective measures'']
            else actions1);
          actions3 = (if sla_breaches metrics > 0
            then actions2 @ [''- Review '' @ int_str (sla_breaches metrics) @
                             '' transactions exceeding response time SLA'']
            else actions2)
      in Inr actions3))"

text \<open>\<^verbatim>\<open>sep.join(xs)\<close>.\<close>

fun join :: "string \<Rightarrow> string list \<Rightarrow> string" where
  "join sep [] = []"
| "join sep [x] = x"
| "join sep (x # y # ys) = x @ sep @ join sep (y # ys)"

definition newline :: string where
  "newline = [CHR 0x0A]"

definition generate_action_items :: "daily_metrics \<Rightarrow> pyerror + string" where
  "generate_action_items metrics =
     (case action_list metrics of
        Inl e \<Rightarrow> Inl e
      | Inr actions \<Rightarrow>
          Inr (if actions \<noteq> [] then join newline actions
               else ''- No immediate actions required''))"

section \<open>Report formatter: \<^verbatim>\<open>generate_daily_report\<close>\<close>

text \<open>\<^verbatim>\<open>format(n, ',')\<close>: the decimal digits in groups of three.\<close>

function comma_groups :: "string \<Rightarrow> string" where
  "comma_groups ds =
     (if length ds \<le> 3 then ds
      else comma_groups (take (length ds - 3) ds) @ '','' @ drop (length ds - 3) ds)"
  by pat_completeness auto
termination
  by (relation "measure length") auto

declare comma_groups.simps [simp del]

definition format_comma :: "int \<Rightarrow> string" where
  "format_comma i =
     (if i < 0 then CHR ''-'' # comma_groups (nat_str (nat (- i)))
      else comma_groups (nat_str (nat i)))"

text \<open>
  \<^verbatim>\<open>format(x, '.2f')\<close>: the exact value of the float rounded to two decimals, a tie
  going to the even neighbour; the sign of a negative value stays when it rounds to
  zero.
\<close>

definition format_2f :: "rat \<Rightarrow> string" where
  "format_2f x =
     (let n = nat (round_half_even (\<bar>x\<bar> * 100))
      in (if x < 0 then ''-'' else []) @ nat_str (n div 100) @ ''.'' @
         zero_pad 2 (nat_str (n mod 100)))"

fun py_format_2f :: "pyval \<Rightarrow> pyerror + string" where
  "py_format_2f PyNone = Inl TypeError"
| "py_format_2f (PyInt i) = Inr (format_2f (of_int i))"
| "py_format_2f (PyFloat (Finite r)) = Inr (format_2f r)"
| "py_format_2f (PyFloat PosInf) = Inr ''inf''"
| "py_format_2f (PyFloat NegInf) = Inr ''-inf''"
| "py_format_2f (PyFloat NaN) = Inr ''nan''"
| "py_format_2f (PyStr s) = Inl ValueError"

text \<open>
  The two marks of the report are U+2713 and U+2717, outside the 8-bit characters:
  they stand as their UTF-8 bytes.
\<close>

definition mark_met :: string where
  "mark_met = [CHR 0xE2, CHR 0x9C, CHR 0x93] @ '' Met''"

definition mark_not_met :: string where
  "mark_not_met = [CHR 0xE2, CHR 0x9C, CHR 0x97] @ '' Not Met''"

definition indent :: string where
  "indent = replicate 8 (CHR '' '')"

text \<open>
  The f-string of the report, for the row \<^verbatim>\<open>metrics.iloc[0]\<close>. Its fields are
  evaluated from left to right; the first that raises ends the call.
\<close>

definition format_report :: "py_date \<Rightarrow> daily_metrics \<Rightarrow> pyerror + string" where
  "format_report d m =
     (case py_format_2f (avg_response_time m) of
        Inl e \<Rightarrow> Inl e
      | Inr avg_text \<Rightarrow>
     (case py_le (avg_response_time m) 4 of
        Inl e \<Rightarrow> Inl e
      | Inr avg_met \<Rightarrow>
     (case generate_action_items m of
        Inl e \<Rightarrow> Inl e
      | Inr items \<Rightarrow>
        Inr (newline @
          indent @ ''Data Integrity Daily Report - '' @ iso_date d @ newline @
          indent @ ''====================================='' @ newline @
          indent @ newline @
          indent @ ''Transaction Summary:'' @ newline @
          indent @ ''- Total Transactions: '' @ format_comma (total_transactions m) @ newline @
          indent @ ''- Average Response Time: '' @ avg_text @ ''s'' @ newline @
          indent @ ''- Error Rate: '' @ format_2f (error_rate m) @ ''%'' @ newline @
          indent @ ''- SLA Breaches: '' @ format_comma (sla_breaches m) @ newline @
          indent @ newline @
          indent @ ''Performance Against SLA:'' @ newline @
          indent @ ''- Response Time SLA (4s): '' @
            (if avg_met then mark_met else mark_not_met) @ newline @
          indent @ ''- Error Rate SLA (1%): '' @
            (if error_rate m \<le> 1 then mark_met else mark_not_met) @ newline @
          indent @ newline @
          indent @ ''Action Items:'' @ newline @
          indent @ items @ newline @
          indent))))"

definition no_data_message :: string where
  "no_data_message = ''No data available for specified date''"

definition generate_daily_report :: "db_row list \<Rightarrow> py_date \<Rightarrow> pyerror + string" where
  "generate_daily_report store d =
     (case analyze_performance store d d of
        [] \<Rightarrow> Inr no_data_message
      | m # rest \<Rightarrow> format_report d m)"

section \<open>Notions used in the statements and proofs\<close>

text \<open>
  The calendar order of dates, and the dates both Python and SQLite can hold: a year
  of at most four digits, a month and a day in their ranges.
\<close>

definition valid_date :: "py_date \<Rightarrow> bool" where
  "valid_date d \<longleftrightarrow> year d \<le> 9999 \<and> 1 \<le> month d \<and> month d \<le> 12 \<and> 1 \<le> day d \<and> day d \<le> 31"



text \<open>The calendar date of a row, and a store whose dates are all dates SQLite prints.\<close>

definition row_date :: "db_row \<Rightarrow> py_date option" where
  "row_date r = map_option ts_date (timestamp r)"

definition stored_dates_valid :: "db_row list \<Rightarrow> bool" where
  "stored_dates_valid store =
     list_all (\<lambda>r. case row_date r of None \<Rightarrow> True | Some d \<Rightarrow> valid_date d) store"

text \<open>
  The words of the specification: the transactions of a date, the mean of a list of
  doubles as double arithmetic gives it (the running sum divided by the number of
  values), and a breach, a transaction whose processing time exceeds 4.0 seconds.
\<close>

definition transactions_on :: "db_row list \<Rightarrow> py_date \<Rightarrow> db_row list" where
  "transactions_on store d = filter (\<lambda>r. row_date r = Some d) store"


definition breach :: "db_row \<Rightarrow> bool" where
  "breach r = (case processing_time r of None \<Rightarrow> False | Some p \<Rightarrow> p > 4)"


text \<open>Two decimal digits, the rows the query selects, and the row it computes for a group.\<close>

definition digits2 :: "nat \<Rightarrow> string" where
  "digits2 n = [digit_char (n div 10), digit_char (n mod 10)]"

definition null_float :: "bool \<Rightarrow> rat option \<Rightarrow> pyval" where
  "null_float all_null x =
     (case x of None \<Rightarrow> if all_null then PyNone else PyFloat NaN | Some v \<Rightarrow> PyFloat (Finite v))"

definition selected :: "db_row list \<Rightarrow> py_date \<Rightarrow> py_date \<Rightarrow> db_row list" where
  "selected store s e = filter (where_between (iso_date s) (iso_date e)) store"

definition metrics_row :: "bool \<Rightarrow> string \<Rightarrow> db_row list \<Rightarrow> daily_metrics" where
  "metrics_row all_null k g =
     \<lparr> date = k,
       total_transactions = int (length g),
       avg_response_time = null_float all_null (sql_AVG (map processing_time g)),
       error_rate =
         round_double (of_int (sum_list (map case_error g)) * 100 / of_nat (length g)),
       sla_breaches = sum_list (map case_breach g) \<rparr>"

section \<open>Concrete inputs\<close>

text \<open>
  A float literal stands for the double nearest to it: 5.2, 1.8, 3.1 and 4.9 are not
  doubles themselves.
\<close>

definition float_5_2 :: pyval where
  "float_5_2 = PyFloat (Finite (5854679515581645 / 1125899906842624))"

definition float_1_8 :: pyval where
  "float_1_8 = PyFloat (Finite (8106479329266893 / 4503599627370496))"

definition tx_slow :: transaction where
  "tx_slow = map_of
     [(''amount'', PyInt 10), (''currency'', PyStr ''USD''), (''card_type'', PyStr ''credit''),
      (''merchant_id'', PyStr ''M1''), (''processing_time'', float_5_2)]"

definition tx_many_violations :: transaction where
  "tx_many_violations = map_of
     [(''amount'', PyInt (- 5)), (''currency'', PyStr ''US''), (''card_type'', PyNone),
      (''merchant_id'', PyNone), (''processing_time'', PyFloat (Finite 1))]"

definition tx_all_null :: transaction where
  "tx_all_null = map_of
     [(''amount'', PyFloat NaN), (''currency'', PyNone), (''card_type'', PyNone),
      (''merchant_id'', PyNone), (''processing_time'', PyInt 5)]"

definition tx_none_amount :: transaction where
  "tx_none_amount = map_of
     [(''amount'', PyNone), (''currency'', PyStr ''USD''), (''card_type'', PyStr ''credit''),
      (''merchant_id'', PyStr ''M1''), (''processing_time'', PyFloat (Finite 1))]"

definition tx_nan_amount :: transaction where
  "tx_nan_amount = map_of
     [(''amount'', PyFloat NaN), (''currency'', PyStr ''USD''), (''card_type'', PyStr ''credit''),
      (''merchant_id'', PyStr ''M1''), (''processing_time'', PyFloat (Finite 1))]"

definition tx_none_amount_slow :: transaction where
  "tx_none_amount_slow = map_of
     [(''amount'', PyNone), (''currency'', PyStr ''USD''), (''card_type'', PyStr ''credit''),
      (''merchant_id'', PyStr ''M1''), (''processing_time'', float_5_2)]"

definition tx_none_currency :: transaction where
  "tx_none_currency = map_of
     [(''amount'', PyInt 10), (''currency'', PyNone), (''card_type'', PyStr ''credit''),
      (''merchant_id'', PyStr ''M1''), (''processing_time'', PyFloat (Finite 1))]"

definition tx_nan_currency :: transaction where
  "tx_nan_currency = map_of
     [(''amount'', PyInt 10), (''currency'', PyFloat NaN), (''card_type'', PyStr ''credit''),
      (''merchant_id'', PyStr ''M1''), (''processing_time'', PyFloat (Finite 1))]"

definition day_a :: py_date where "day_a = \<lparr> year = 2024, month = 3, day = 5 \<rparr>"

definition day_b :: py_date where "day_b = \<lparr> year = 2024, month = 3, day = 6 \<rparr>"

definition day_c :: py_date where "day_c = \<lparr> year = 2024, month = 3, day = 8 \<rparr>"

definition store_a :: "db_row list" where
  "store_a =
     [\<lparr> timestamp = Some \<lparr> ts_date = day_b, ts_time = 86399 \<rparr>, processing_time = Some 5,
        error_code = None \<rparr>,
      \<lparr> timestamp = Some \<lparr> ts_date = day_a, ts_time = 0 \<rparr>, processing_time = Some (3 / 2),
        error_code = Some ''E1'' \<rparr>,
      \<lparr> timestamp = Some \<lparr> ts_date = day_a, ts_time = 43200 \<rparr>, processing_time = None,
        error_code = None \<rparr>,
      \<lparr> timestamp = None, processing_time = Some 1, error_code = None \<rparr>,
      \<lparr> timestamp = Some \<lparr> ts_date = day_c, ts_time = 10 \<rparr>, processing_time = Some (9 / 2),
        error_code = None \<rparr>]"

definition metrics_scenario :: daily_metrics where
  "metrics_scenario =
     \<lparr> date = ''2024-03-05'', total_transactions = 100, avg_response_time = float_1_8,
       error_rate = 2, sla_breaches = 3 \<rparr>"

definition metrics_zero :: daily_metrics where
  "metrics_zero =
     \<lparr> date = ''2024-03-05'', total_transactions = 0, avg_response_time = PyFloat (Finite 0),
       error_rate = 0, sla_breaches = 0 \<rparr>"




definition day_d :: py_date where "day_d = \<lparr> year = 2024, month = 3, day = 7 \<rparr>"

definition metrics_slow :: daily_metrics where
  "metrics_slow =
     \<lparr> date = ''2024-03-06'', total_transactions = 4, avg_response_time = PyFloat (Finite (9 / 2)),
       error_rate = 1 / 2, sla_breaches = 2 \<rparr>"

section \<open>The validator's result\<close>

lemma upper_required_fields:
  "upper ''merchant_id'' = ''MERCHANT_ID''"
  "upper ''amount'' = ''AMOUNT''"
  "upper ''currency'' = ''CURRENCY''"
  "upper ''card_type'' = ''CARD_TYPE''"
  by code_simp+

text \<open>
  The loop returns exactly when every field it reads is a key of the transaction, and
  then it has appended one code per null field, in the order of the fields.
\<close>

lemma check_required_Inr:
  "check_required tx names codes = Inr codes' \<longleftrightarrow>
     (\<forall>f \<in> set names. tx f \<noteq> None) \<and>
     codes' = codes @ concat (map (\<lambda>f. if isna (the (tx f)) then [''MISSING_'' @ upper f] else [])
                names)"
proof (induction names arbitrary: codes)
  case Nil
  show ?case by auto
next
  case (Cons f fs)
  show ?case
  proof (cases "tx f")
    case None
    then show ?thesis by (simp add: getitem_def)
  next
    case (Some v)
    then show ?thesis
      using Cons.IH [of "if isna v then codes @ [''MISSING_'' @ upper f] else codes"]
      by (simp add: getitem_def)
  qed
qed

lemma if_append_right: "(if b then xs @ ys else xs) = xs @ (if b then ys else [])"
  by simp

lemma check_required_fields:
  assumes "tx ''merchant_id'' = Some m" "tx ''amount'' = Some a" "tx ''currency'' = Some c"
    "tx ''card_type'' = Some t"
  shows "check_required tx required_fields [] = Inr (
      (if isna m then [''MISSING_MERCHANT_ID''] else []) @
      (if isna a then [''MISSING_AMOUNT''] else []) @
      (if isna c then [''MISSING_CURRENCY''] else []) @
      (if isna t then [''MISSING_CARD_TYPE''] else []))"
  using assms
  by (simp add: check_required_Inr required_fields_def upper_required_fields
          del: check_required.simps)

lemma validate_transaction_keys:
  assumes "tx ''merchant_id'' = Some m" "tx ''amount'' = Some a" "tx ''currency'' = Some c"
    "tx ''card_type'' = Some t" "tx ''processing_time'' = Some p"
    "py_le a 0 = Inr nonpositive" "py_gt p 4 = Inr slow"
  shows "validate_transaction fr tx =
     Inr (length ((if isna m then [''MISSING_MERCHANT_ID''] else []) @
          (if isna a then [''MISSING_AMOUNT''] else []) @
          (if isna c then [''MISSING_CURRENCY''] else []) @
          (if isna t then [''MISSING_CARD_TYPE''] else []) @
          (if nonpositive then [''INVALID_AMOUNT''] else []) @
          (if length (py_str fr c) \<noteq> 3 then [''INVALID_CURRENCY''] else []) @
          (if slow then [''SLA_BREACH''] else [])) = 0,
          (if isna m then [''MISSING_MERCHANT_ID''] else []) @
          (if isna a then [''MISSING_AMOUNT''] else []) @
          (if isna c then [''MISSING_CURRENCY''] else []) @
          (if isna t then [''MISSING_CARD_TYPE''] else []) @
          (if nonpositive then [''INVALID_AMOUNT''] else []) @
          (if length (py_str fr c) \<noteq> 3 then [''INVALID_CURRENCY''] else []) @
          (if slow then [''SLA_BREACH''] else []))"
  unfolding validate_transaction_def check_required_fields [OF assms(1-4)]
  using assms(2,3,5,6,7)
  by (simp add: getitem_def Let_def if_append_right del: length_0_conv split del: if_split)

text \<open>
  A call that returns has found the five keys it reads, and both comparisons were
  between numbers.
\<close>

lemma validate_transaction_Inr_keys:
  assumes "validate_transaction fr tx = Inr r"
  shows "\<exists>m a c t p nonpositive slow.
        tx ''merchant_id'' = Some m \<and> tx ''amount'' = Some a \<and> tx ''currency'' = Some c \<and>
        tx ''card_type'' = Some t \<and> tx ''processing_time'' = Some p \<and>
        py_le a 0 = Inr nonpositive \<and> py_gt p 4 = Inr slow"
proof -
  from assms obtain codes1 where c1: "check_required tx required_fields [] = Inr codes1"
    by (auto simp: validate_transaction_def split: sum.splits)
  from c1 obtain m a c t where
    keys: "tx ''merchant_id'' = Some m" "tx ''amount'' = Some a" "tx ''currency'' = Some c"
      "tx ''card_type'' = Some t"
    by (auto simp: check_required_Inr required_fields_def simp del: check_required.simps)
  from assms c1 keys obtain np where np: "py_le a 0 = Inr np"
    by (auto simp: validate_transaction_def getitem_def split: sum.splits)
  from assms c1 keys np obtain p where p: "tx ''processing_time'' = Some p"
    by (auto simp: validate_transaction_def getitem_def Let_def split: sum.splits option.splits
        split del: if_split)
  from assms c1 keys np p obtain slow where slow: "py_gt p 4 = Inr slow"
    by (auto simp: validate_transaction_def getitem_def Let_def split: sum.splits
        split del: if_split)
  from keys np p slow show ?thesis by blast
qed

text \<open>
  The returning calls, and what they return: the codes of the seven tests in the order
  of the source, each present exactly when its test holds.
\<close>

lemma validate_transaction_Inr:
  "validate_transaction fr tx = Inr (ok, codes) \<longleftrightarrow>
     (\<exists>m a c t p nonpositive slow.
        tx ''merchant_id'' = Some m \<and> tx ''amount'' = Some a \<and> tx ''currency'' = Some c \<and>
        tx ''card_type'' = Some t \<and> tx ''processing_time'' = Some p \<and>
        py_le a 0 = Inr nonpositive \<and> py_gt p 4 = Inr slow \<and>
        codes =
          (if isna m then [''MISSING_MERCHANT_ID''] else []) @
          (if isna a then [''MISSING_AMOUNT''] else []) @
          (if isna c then [''MISSING_CURRENCY''] else []) @
          (if isna t then [''MISSING_CARD_TYPE''] else []) @
          (if nonpositive then [''INVALID_AMOUNT''] else []) @
          (if length (py_str fr c) \<noteq> 3 then [''INVALID_CURRENCY''] else []) @
          (if slow then [''SLA_BREACH''] else []) \<and>
        ok = (codes = []))"
proof
  assume L: "validate_transaction fr tx = Inr (ok, codes)"
  from validate_transaction_Inr_keys [OF L] obtain m a c t p nonpositive slow where
    k: "tx ''merchant_id'' = Some m" "tx ''amount'' = Some a" "tx ''currency'' = Some c"
      "tx ''card_type'' = Some t" "tx ''processing_time'' = Some p"
      "py_le a 0 = Inr nonpositive" "py_gt p 4 = Inr slow"
    by blast
  define E where "E =
          (if isna m then [''MISSING_MERCHANT_ID''] else []) @
          (if isna a then [''MISSING_AMOUNT''] else []) @
          (if isna c then [''MISSING_CURRENCY''] else []) @
          (if isna t then [''MISSING_CARD_TYPE''] else []) @
          (if nonpositive then [''INVALID_AMOUNT''] else []) @
          (if length (py_str fr c) \<noteq> 3 then [''INVALID_CURRENCY''] else []) @
          (if slow then [''SLA_BREACH''] else [])"
  have "validate_transaction fr tx = Inr (length E = 0, E)"
    unfolding E_def by (rule validate_transaction_keys [OF k])
  with L have "codes = E" and "ok = (codes = [])"
    by auto
  with k show "\<exists>m a c t p nonpositive slow.
        tx ''merchant_id'' = Some m \<and> tx ''amount'' = Some a \<and> tx ''currency'' = Some c \<and>
        tx ''card_type'' = Some t \<and> tx ''processing_time'' = Some p \<and>
        py_le a 0 = Inr nonpositive \<and> py_gt p 4 = Inr slow \<and>
        codes =
          (if isna m then [''MISSING_MERCHANT_ID''] else []) @
          (if isna a then [''MISSING_AMOUNT''] else []) @
          (if isna c then [''MISSING_CURRENCY''] else []) @
          (if isna t then [''MISSING_CARD_TYPE''] else []) @
          (if nonpositive then [''INVALID_AMOUNT''] else []) @
          (if length (py_str fr c) \<noteq> 3 then [''INVALID_CURRENCY''] else []) @
          (if slow then [''SLA_BREACH''] else []) \<and>
        ok = (codes = [])"
    unfolding E_def by blast
next
  assume "\<exists>m a c t p nonpositive slow.
        tx ''merchant_id'' = Some m \<and> tx ''amount'' = Some a \<and> tx ''currency'' = Some c \<and>
        tx ''card_type'' = Some t \<and> tx ''processing_time'' = Some p \<and>
        py_le a 0 = Inr nonpositive \<and> py_gt p 4 = Inr slow \<and>
        codes =
          (if isna m then [''MISSING_MERCHANT_ID''] else []) @
          (if isna a then [''MISSING_AMOUNT''] else []) @
          (if isna c then [''MISSING_CURRENCY''] else []) @
          (if isna t then [''MISSING_CARD_TYPE''] else []) @
          (if nonpositive then [''INVALID_AMOUNT''] else []) @
          (if length (py_str fr c) \<noteq> 3 then [''INVALID_CURRENCY''] else []) @
          (if slow then [''SLA_BREACH''] else []) \<and>
        ok = (codes = [])"
  then obtain m a c t p nonpositive slow where
    k: "tx ''merchant_id'' = Some m" "tx ''amount'' = Some a" "tx ''currency'' = Some c"
      "tx ''card_type'' = Some t" "tx ''processing_time'' = Some p"
      "py_le a 0 = Inr nonpositive" "py_gt p 4 = Inr slow"
    and codes: "codes =
          (if isna m then [''MISSING_MERCHANT_ID''] else []) @
          (if isna a then [''MISSING_AMOUNT''] else []) @
          (if isna c then [''MISSING_CURRENCY''] else []) @
          (if isna t then [''MISSING_CARD_TYPE''] else []) @
          (if nonpositive then [''INVALID_AMOUNT''] else []) @
          (if length (py_str fr c) \<noteq> 3 then [''INVALID_CURRENCY''] else []) @
          (if slow then [''SLA_BREACH''] else [])"
    and ok: "ok = (codes = [])"
    by blast
  have "validate_transaction fr tx = Inr (length codes = 0, codes)"
    unfolding codes by (rule validate_transaction_keys [OF k])
  with ok show "validate_transaction fr tx = Inr (ok, codes)"
    by simp
qed

lemma validate_transaction_eval:
  "validate_transaction fr tx_many_violations =
     Inr (False, [''MISSING_MERCHANT_ID'', ''MISSING_CARD_TYPE'', ''INVALID_AMOUNT'',
                  ''INVALID_CURRENCY''])"
  "validate_transaction fr tx_slow = Inr (False, [''SLA_BREACH''])"
  "validate_transaction fr tx_all_null =
     Inr (False, [''MISSING_MERCHANT_ID'', ''MISSING_AMOUNT'', ''MISSING_CURRENCY'',
                  ''MISSING_CARD_TYPE'', ''INVALID_CURRENCY'', ''SLA_BREACH''])"
  "validate_transaction fr tx_none_amount = Inl TypeError"
  "validate_transaction fr tx_nan_amount = Inr (False, [''MISSING_AMOUNT''])"
  "validate_transaction fr tx_none_amount_slow = Inl TypeError"
  "validate_transaction fr tx_none_currency =
     Inr (False, [''MISSING_CURRENCY'', ''INVALID_CURRENCY''])"
  "validate_transaction fr tx_nan_currency = Inr (False, [''MISSING_CURRENCY''])"
  by (simp_all add: validate_transaction_def required_fields_def getitem_def
        upper_required_fields float_5_2_def tx_many_violations_def tx_slow_def tx_all_null_def
        tx_none_amount_def tx_nan_amount_def tx_none_amount_slow_def tx_none_currency_def
        tx_nan_currency_def)

section \<open>Claims about the validator\<close>

text \<open>
  C1. The claim: validate never raises; a missing amount yields MISSING_AMOUNT, does
  not trigger INVALID_AMOUNT, and the comparison of check (2) does not raise on it.
  On the code the claim holds for an amount that is a float NaN and fails for an
  amount that is \<^verbatim>\<open>None\<close>: the loop has appended MISSING_AMOUNT when
  \<^verbatim>\<open>None <= 0\<close> raises TypeError, and the codes are lost.
\<close>

theorem validate_none_amount_raises:
  "validate_transaction fr tx_none_amount = Inl TypeError \<and>
   validate_transaction fr tx_nan_amount = Inr (False, [''MISSING_AMOUNT''])"
  by (simp add: validate_transaction_eval)

text \<open>
  C2. The checks run in the fixed order: the four missing-field tests in the order
  merchant_id, amount, currency, card_type, then INVALID_AMOUNT, INVALID_CURRENCY and
  SLA_BREACH. A call returns exactly when it finds its five keys and both comparisons
  are between numbers, and the list it returns holds the code of every test that
  fires, in that order, none skipped because an earlier one fired. The transaction
  with amount -5, currency "US", no card type and no merchant returns the four codes
  of the scenario.
\<close>

theorem validate_transaction_fixed_order:
  "(validate_transaction fr tx = Inr (ok, codes) \<longleftrightarrow>
     (\<exists>m a c t p nonpositive slow.
        tx ''merchant_id'' = Some m \<and> tx ''amount'' = Some a \<and> tx ''currency'' = Some c \<and>
        tx ''card_type'' = Some t \<and> tx ''processing_time'' = Some p \<and>
        py_le a 0 = Inr nonpositive \<and> py_gt p 4 = Inr slow \<and>
        codes =
          (if isna m then [''MISSING_MERCHANT_ID''] else []) @
          (if isna a then [''MISSING_AMOUNT''] else []) @
          (if isna c then [''MISSING_CURRENCY''] else []) @
          (if isna t then [''MISSING_CARD_TYPE''] else []) @
          (if nonpositive then [''INVALID_AMOUNT''] else []) @
          (if length (py_str fr c) \<noteq> 3 then [''INVALID_CURRENCY''] else []) @
          (if slow then [''SLA_BREACH''] else []) \<and>
        ok = (codes = []))) \<and>
   validate_transaction fr tx_many_violations =
     Inr (False, [''MISSING_MERCHANT_ID'', ''MISSING_CARD_TYPE'', ''INVALID_AMOUNT'',
                  ''INVALID_CURRENCY''])"
  by (rule conjI [OF validate_transaction_Inr validate_transaction_eval(1)])

theorem validate_transaction_fixed_order_witness:
  "\<exists>m a c t p nonpositive slow.
      tx_all_null ''merchant_id'' = Some m \<and> tx_all_null ''amount'' = Some a \<and>
      tx_all_null ''currency'' = Some c \<and> tx_all_null ''card_type'' = Some t \<and>
      tx_all_null ''processing_time'' = Some p \<and>
      py_le a 0 = Inr nonpositive \<and> py_gt p 4 = Inr slow \<and>
      [''MISSING_MERCHANT_ID'', ''MISSING_AMOUNT'', ''MISSING_CURRENCY'', ''MISSING_CARD_TYPE'',
       ''INVALID_CURRENCY'', ''SLA_BREACH''] =
          (if isna m then [''MISSING_MERCHANT_ID''] else []) @
          (if isna a then [''MISSING_AMOUNT''] else []) @
          (if isna c then [''MISSING_CURRENCY''] else []) @
          (if isna t then [''MISSING_CARD_TYPE''] else []) @
          (if nonpositive then [''INVALID_AMOUNT''] else []) @
          (if length (py_str (\<lambda>r. []) c) \<noteq> 3 then [''INVALID_CURRENCY''] else []) @
          (if slow then [''SLA_BREACH''] else [])"
proof -
  have "validate_transaction (\<lambda>r. []) tx_all_null =
     Inr (False, [''MISSING_MERCHANT_ID'', ''MISSING_AMOUNT'', ''MISSING_CURRENCY'',
                  ''MISSING_CARD_TYPE'', ''INVALID_CURRENCY'', ''SLA_BREACH''])"
    by (rule validate_transaction_eval(3))
  then show ?thesis
    using validate_transaction_fixed_order [of "\<lambda>r. []" tx_all_null False
        "[''MISSING_MERCHANT_ID'', ''MISSING_AMOUNT'', ''MISSING_CURRENCY'', ''MISSING_CARD_TYPE'',
          ''INVALID_CURRENCY'', ''SLA_BREACH'']"]
    by blast
qed

text \<open>
  C3. The claim: every transaction with processing_time above 4.0 gets SLA_BREACH,
  whatever the validity of its other fields. The transaction of the scenario with its
  amount replaced by \<^verbatim>\<open>None\<close> has processing_time 5.2 and no result at all: the
  comparison of the amount raises before the SLA test is reached.
\<close>

theorem validate_none_amount_hides_sla_breach:
  "tx_none_amount_slow ''processing_time'' = Some float_5_2 \<and>
   py_gt float_5_2 4 = Inr True \<and>
   validate_transaction fr tx_none_amount_slow = Inl TypeError"
  by (simp add: validate_transaction_eval) (simp add: tx_none_amount_slow_def float_5_2_def)

text \<open>
  What holds of C3 on the code: a call that returns, on a transaction whose
  processing_time is above 4.0, returns SLA_BREACH among its codes and the flag False,
  whatever the other tests found; the transaction of the scenario returns SLA_BREACH
  alone.
\<close>

theorem validate_sla_breach_when_returns:
  "(validate_transaction fr tx = Inr (ok, codes) \<longrightarrow> tx ''processing_time'' = Some p \<longrightarrow>
      py_gt p 4 = Inr True \<longrightarrow> ''SLA_BREACH'' \<in> set codes \<and> \<not> ok) \<and>
   validate_transaction fr tx_slow = Inr (False, [''SLA_BREACH''])"
proof -
  have "''SLA_BREACH'' \<in> set codes \<and> \<not> ok"
    if "validate_transaction fr tx = Inr (ok, codes)" "tx ''processing_time'' = Some p"
      "py_gt p 4 = Inr True"
    using that unfolding validate_transaction_Inr by auto
  then show ?thesis
    using validate_transaction_eval(2) by blast
qed

theorem validate_sla_breach_when_returns_witness:
  "validate_transaction (\<lambda>r. []) tx_all_null =
     Inr (False, [''MISSING_MERCHANT_ID'', ''MISSING_AMOUNT'', ''MISSING_CURRENCY'',
                  ''MISSING_CARD_TYPE'', ''INVALID_CURRENCY'', ''SLA_BREACH'']) \<and>
   tx_all_null ''processing_time'' = Some (PyInt 5) \<and> py_gt (PyInt 5) 4 = Inr True \<and>
   ''SLA_BREACH'' \<in> set [''MISSING_MERCHANT_ID'', ''MISSING_AMOUNT'', ''MISSING_CURRENCY'',
                  ''MISSING_CARD_TYPE'', ''INVALID_CURRENCY'', ''SLA_BREACH'']"
proof -
  have h: "validate_transaction (\<lambda>r. []) tx_all_null =
     Inr (False, [''MISSING_MERCHANT_ID'', ''MISSING_AMOUNT'', ''MISSING_CURRENCY'',
                  ''MISSING_CARD_TYPE'', ''INVALID_CURRENCY'', ''SLA_BREACH''])"
    by (rule validate_transaction_eval(3))
  have p: "tx_all_null ''processing_time'' = Some (PyInt 5)"
    by (simp add: tx_all_null_def)
  have g: "py_gt (PyInt 5) 4 = Inr True"
    by simp
  from validate_sla_breach_when_returns [of "\<lambda>r. []" tx_all_null False _ "PyInt 5"] h p g
  show ?thesis by blast
qed

text \<open>
  C9. On every transaction on which validate returns, the flag is true exactly when
  the list of codes is empty.
\<close>

theorem validate_valid_iff_no_codes:
  "validate_transaction fr tx = Inr (ok, codes) \<Longrightarrow> ok \<longleftrightarrow> codes = []"
  unfolding validate_transaction_Inr by blast

theorem validate_valid_iff_no_codes_witness:
  "validate_transaction (\<lambda>r. []) tx_nan_amount = Inr (False, [''MISSING_AMOUNT'']) \<and>
   (False \<longleftrightarrow> [''MISSING_AMOUNT''] = [])"
  using validate_valid_iff_no_codes [of "\<lambda>r. []" tx_nan_amount False "[''MISSING_AMOUNT'']"]
  by (simp add: validate_transaction_eval)

text \<open>
  C10. On a transaction that has the five keys, a number for its amount and for its
  processing time, and a null currency, validate returns a list that holds
  MISSING_CURRENCY; whether the list also holds INVALID_CURRENCY depends on how the
  null is written: \<^verbatim>\<open>None\<close> prints as the four characters of "None" and gets it, a
  float NaN prints as the three characters of "nan" and does not.
\<close>

theorem validate_null_currency:
  assumes "tx ''merchant_id'' = Some m" "tx ''amount'' = Some a" "tx ''currency'' = Some cur"
    and "tx ''card_type'' = Some t" "tx ''processing_time'' = Some p"
    and "py_le a 0 = Inr nonpositive" "py_gt p 4 = Inr slow"
    and "cur = PyNone \<or> cur = PyFloat NaN"
  shows "\<exists>codes. validate_transaction fr tx = Inr (False, codes) \<and>
     ''MISSING_CURRENCY'' \<in> set codes \<and>
     (''INVALID_CURRENCY'' \<in> set codes \<longleftrightarrow> cur = PyNone)"
proof -
  define codes where "codes =
          (if isna m then [''MISSING_MERCHANT_ID''] else []) @
          (if isna a then [''MISSING_AMOUNT''] else []) @
          (if isna cur then [''MISSING_CURRENCY''] else []) @
          (if isna t then [''MISSING_CARD_TYPE''] else []) @
          (if nonpositive then [''INVALID_AMOUNT''] else []) @
          (if length (py_str fr cur) \<noteq> 3 then [''INVALID_CURRENCY''] else []) @
          (if slow then [''SLA_BREACH''] else [])"
  have "validate_transaction fr tx = Inr (length codes = 0, codes)"
    unfolding codes_def by (rule validate_transaction_keys [OF assms(1-7)])
  moreover from assms(8) have "''MISSING_CURRENCY'' \<in> set codes"
    and "''INVALID_CURRENCY'' \<in> set codes \<longleftrightarrow> cur = PyNone"
    by (auto simp: codes_def)
  ultimately show ?thesis
    by auto
qed

theorem validate_null_currency_witness:
  "(\<exists>codes. validate_transaction (\<lambda>r. []) tx_none_currency = Inr (False, codes) \<and>
      ''MISSING_CURRENCY'' \<in> set codes \<and> ''INVALID_CURRENCY'' \<in> set codes) \<and>
   (\<exists>codes. validate_transaction (\<lambda>r. []) tx_nan_currency = Inr (False, codes) \<and>
      ''MISSING_CURRENCY'' \<in> set codes \<and> ''INVALID_CURRENCY'' \<notin> set codes) \<and>
   validate_transaction (\<lambda>r. []) tx_none_currency =
     Inr (False, [''MISSING_CURRENCY'', ''INVALID_CURRENCY'']) \<and>
   validate_transaction (\<lambda>r. []) tx_nan_currency = Inr (False, [''MISSING_CURRENCY''])"
proof -
  have k1: "tx_none_currency ''merchant_id'' = Some (PyStr ''M1'')"
    "tx_none_currency ''amount'' = Some (PyInt 10)" "tx_none_currency ''currency'' = Some PyNone"
    "tx_none_currency ''card_type'' = Some (PyStr ''credit'')"
    "tx_none_currency ''processing_time'' = Some (PyFloat (Finite 1))"
    by (simp_all add: tx_none_currency_def)
  have k2: "tx_nan_currency ''merchant_id'' = Some (PyStr ''M1'')"
    "tx_nan_currency ''amount'' = Some (PyInt 10)"
    "tx_nan_currency ''currency'' = Some (PyFloat NaN)"
    "tx_nan_currency ''card_type'' = Some (PyStr ''credit'')"
    "tx_nan_currency ''processing_time'' = Some (PyFloat (Finite 1))"
    by (simp_all add: tx_nan_currency_def)
  have c: "py_le (PyInt 10) 0 = Inr False" "py_gt (PyFloat (Finite 1)) 4 = Inr False"
    by simp_all
  from validate_null_currency [OF k1 c, of "\<lambda>r. []"]
    validate_null_currency [OF k2 c, of "\<lambda>r. []"]
    validate_transaction_eval(7) [of "\<lambda>r. []"] validate_transaction_eval(8) [of "\<lambda>r. []"]
  show ?thesis by simp
qed

section \<open>Rounding to a double\<close>

lemma round_half_even_cases:
  "round_half_even x = \<lfloor>x\<rfloor> \<or> round_half_even x = \<lfloor>x\<rfloor> + 1"
  by (simp add: round_half_even_def Let_def)

lemma round_half_even_of_int [simp]: "round_half_even (of_int n) = n"
  by (simp add: round_half_even_def)

lemma round_half_even_numeral [simp]: "round_half_even (numeral n) = numeral n"
  using round_half_even_of_int [of "numeral n"] by simp

lemma round_half_even_mono:
  assumes "x \<le> y"
  shows "round_half_even x \<le> round_half_even y"
proof (cases "\<lfloor>x\<rfloor> = \<lfloor>y\<rfloor>")
  case True
  with assms show ?thesis
    by (auto simp: round_half_even_def Let_def)
next
  case False
  with assms have "\<lfloor>x\<rfloor> + 1 \<le> \<lfloor>y\<rfloor>"
    using floor_mono [of x y] by linarith
  moreover have "round_half_even x \<le> \<lfloor>x\<rfloor> + 1" "\<lfloor>y\<rfloor> \<le> round_half_even y"
    using round_half_even_cases [of x] round_half_even_cases [of y] by auto
  ultimately show ?thesis by linarith
qed

lemma round_half_even_nearest:
  assumes "\<bar>y - of_int n\<bar> < 1 / 2"
  shows "round_half_even y = n"
proof (cases "of_int n \<le> y")
  case True
  with assms have "\<lfloor>y\<rfloor> = n"
    by (intro floor_unique) (auto simp: abs_less_iff)
  with assms True show ?thesis
    by (auto simp: round_half_even_def Let_def abs_less_iff)
next
  case False
  with assms have "\<lfloor>y\<rfloor> = n - 1"
    by (intro floor_unique) (auto simp: abs_less_iff)
  with assms False show ?thesis
    by (auto simp: round_half_even_def Let_def abs_less_iff)
qed

lemma round_pos_nonpos: "x \<le> 0 \<Longrightarrow> round_pos x = 0"
  by (subst round_pos.simps) simp

lemma round_pos_range:
  "2 ^ 52 \<le> x \<Longrightarrow> x < 2 ^ 53 \<Longrightarrow> round_pos x = of_int (round_half_even x)"
  by (subst round_pos.simps) simp

lemma round_pos_twice: "0 < x \<Longrightarrow> round_pos (2 * x) = 2 * round_pos x"
proof (cases "x < 2 ^ 52")
  case True
  assume "0 < x"
  with True have "round_pos x = round_pos (2 * x) / 2"
    by (subst round_pos.simps) simp
  then show ?thesis by simp
next
  case False
  assume "0 < x"
  with False have "round_pos (2 * x) = 2 * round_pos (2 * x / 2)"
    by (subst round_pos.simps) simp
  then show ?thesis by simp
qed

lemma round_pos_times_power: "0 < x \<Longrightarrow> round_pos (x * 2 ^ k) = round_pos x * 2 ^ k"
proof (induction k)
  case 0
  show ?case by simp
next
  case (Suc k)
  then have "round_pos (2 * (x * 2 ^ k)) = 2 * round_pos (x * 2 ^ k)"
    by (intro round_pos_twice) simp
  with Suc show ?case by (simp add: mult.commute mult.left_commute)
qed

lemma round_pos_scaled_up:
  assumes "2 ^ 52 \<le> x * 2 ^ k" "x * 2 ^ k < 2 ^ 53"
  shows "round_pos x = of_int (round_half_even (x * 2 ^ k)) / 2 ^ k"
proof -
  from assms(1) have "0 < x * 2 ^ k"
    by (rule less_le_trans [rotated]) simp
  then have "0 < x"
    by (simp add: zero_less_mult_iff)
  then have "round_pos (x * 2 ^ k) = round_pos x * 2 ^ k"
    by (rule round_pos_times_power)
  with round_pos_range [OF assms] show ?thesis
    by (simp add: eq_divide_eq)
qed

lemma round_pos_scaled_down:
  assumes "2 ^ 52 \<le> x / 2 ^ k" "x / 2 ^ k < 2 ^ 53"
  shows "round_pos x = of_int (round_half_even (x / 2 ^ k)) * 2 ^ k"
proof -
  from assms(1) have "0 < x / 2 ^ k"
    by (rule less_le_trans [rotated]) simp
  then have "round_pos (x / 2 ^ k * 2 ^ k) = round_pos (x / 2 ^ k) * 2 ^ k"
    by (rule round_pos_times_power)
  with round_pos_range [OF assms] show ?thesis
    by simp
qed

lemma round_pos_nonneg: "0 \<le> round_pos x"
proof (induction x rule: round_pos.induct)
  case (1 x)
  consider "x \<le> 0" | "0 < x" "2 ^ 53 \<le> x" | "0 < x" "x < 2 ^ 52" | "2 ^ 52 \<le> x" "x < 2 ^ 53"
    by linarith
  then show ?case
  proof cases
    case 1
    then show ?thesis by (simp add: round_pos_nonpos)
  next
    case 2
    then have "round_pos x = 2 * round_pos (x / 2)"
      by (subst round_pos.simps) simp
    moreover from 2 have "0 \<le> round_pos (x / 2)"
      by (intro "1.IH"(1)) simp_all
    ultimately show ?thesis by simp
  next
    case 3
    then have "round_pos x = round_pos (2 * x) / 2"
      by (subst round_pos.simps) simp
    moreover from 3 have "0 \<le> round_pos (2 * x)"
      by (intro "1.IH"(2)) simp_all
    ultimately show ?thesis by simp
  next
    case 4
    then have "round_pos x = of_int (round_half_even x)"
      by (rule round_pos_range)
    moreover have "round_half_even (of_int 0) \<le> round_half_even x"
      using 4 by (intro round_half_even_mono) simp
    ultimately show ?thesis
      by (simp del: of_int_0)
  qed
qed

lemma round_pos_large: "2 ^ 52 \<le> x \<Longrightarrow> 2 ^ 52 \<le> round_pos x"
proof (induction x rule: round_pos.induct)
  case (1 x)
  show ?case
  proof (cases "2 ^ 53 \<le> x")
    case True
    then have "2 ^ 52 \<le> round_pos (x / 2)"
      by (intro "1.IH"(1)) simp_all
    moreover from True have "round_pos x = 2 * round_pos (x / 2)"
      by (subst round_pos.simps) simp
    ultimately show ?thesis by simp
  next
    case False
    with "1.prems" have "round_pos x = of_int (round_half_even x)"
      by (intro round_pos_range) simp_all
    moreover have "round_half_even (of_int (2 ^ 52)) \<le> round_half_even x"
      using "1.prems" by (intro round_half_even_mono) simp
    then have "(2 ^ 52 :: rat) \<le> of_int (round_half_even x)"
      by (simp only: round_half_even_of_int flip: of_int_le_iff [where 'a = rat]) simp
    ultimately show ?thesis
      by simp
  qed
qed

lemma round_pos_mono: "x \<le> y \<Longrightarrow> round_pos x \<le> round_pos y"
proof (induction x arbitrary: y rule: round_pos.induct)
  case (1 x)
  consider "x \<le> 0" | "0 < x" "2 ^ 53 \<le> x" | "0 < x" "x < 2 ^ 52" | "2 ^ 52 \<le> x" "x < 2 ^ 53"
    by linarith
  then show ?case
  proof cases
    case 1
    then show ?thesis by (simp add: round_pos_nonpos round_pos_nonneg)
  next
    case 2
    with "1.prems" have "round_pos x = 2 * round_pos (x / 2)" "round_pos y = 2 * round_pos (y / 2)"
      by (subst round_pos.simps, simp)+
    moreover from 2 "1.prems" have "round_pos (x / 2) \<le> round_pos (y / 2)"
      by (intro "1.IH"(1)) simp_all
    ultimately show ?thesis by simp
  next
    case 3
    with "1.prems" have "round_pos (2 * x) = 2 * round_pos x" "round_pos (2 * y) = 2 * round_pos y"
      by (simp_all add: round_pos_twice)
    moreover from 3 "1.prems" have "round_pos (2 * x) \<le> round_pos (2 * y)"
      by (intro "1.IH"(2)) simp_all
    ultimately show ?thesis by simp
  next
    case 4
    then have x: "round_pos x = of_int (round_half_even x)"
      by (rule round_pos_range)
    show ?thesis
    proof (cases "y < 2 ^ 53")
      case True
      with 4 "1.prems" have "round_pos y = of_int (round_half_even y)"
        by (intro round_pos_range) simp_all
      with x "1.prems" show ?thesis
        by (simp add: round_half_even_mono)
    next
      case False
      then have "round_pos y = 2 * round_pos (y / 2)"
        by (subst round_pos.simps) simp
      moreover from False have "2 ^ 52 \<le> round_pos (y / 2)"
        by (intro round_pos_large) simp
      moreover have "round_half_even x \<le> round_half_even (of_int (2 ^ 53))"
        using 4 by (intro round_half_even_mono) simp
      then have "(of_int (round_half_even x) :: rat) \<le> 2 ^ 53"
        by (simp only: round_half_even_of_int flip: of_int_le_iff [where 'a = rat]) simp
      ultimately show ?thesis using x by simp
    qed
  qed
qed

lemma round_double_examples:
  "round_double 0 = 0" "round_double 100 = 100" "round_double 50 = 50" "round_double 5 = 5"
  "round_double (3 / 2) = 3 / 2"
  "round_double (100 / 3) = 4691249611844267 / 140737488355328"
proof -
  show "round_double 0 = 0"
    by (simp add: round_double_def round_pos_nonpos)
  show "round_double 100 = 100"
    by (simp add: round_double_def round_pos_scaled_up [where k = 46])
  show "round_double 50 = 50"
    by (simp add: round_double_def round_pos_scaled_up [where k = 47])
  show "round_double 5 = 5"
    by (simp add: round_double_def round_pos_scaled_up [where k = 50])
  show "round_double (3 / 2) = 3 / 2"
    by (simp add: round_double_def round_pos_scaled_up [where k = 52])
  have "round_half_even (100 / 3 * 2 ^ 47) = 4691249611844267"
    by (rule round_half_even_nearest) simp
  then show "round_double (100 / 3) = 4691249611844267 / 140737488355328"
    by (simp add: round_double_def round_pos_scaled_up [where k = 47])
qed

lemma round_double_bounds:
  assumes "0 \<le> x" "x \<le> 100"
  shows "0 \<le> round_double x" "round_double x \<le> 100"
proof -
  from assms(1) have r: "round_double x = round_pos x"
    by (simp add: round_double_def)
  show "0 \<le> round_double x"
    by (simp add: r round_pos_nonneg)
  from assms(2) have "round_pos x \<le> round_pos 100"
    by (rule round_pos_mono)
  moreover have "round_pos 100 = 100"
    using round_double_examples(2) by (simp add: round_double_def)
  ultimately show "round_double x \<le> 100"
    by (simp add: r)
qed

section \<open>Dates as text\<close>

lemma of_char_digit_char: "d < 10 \<Longrightarrow> of_char (digit_char d) = 48 + d"
  by (simp add: digit_char_def)


lemma digit_char_eq_iff: "a < 10 \<Longrightarrow> b < 10 \<Longrightarrow> digit_char a = digit_char b \<longleftrightarrow> a = b"
proof
  assume "a < 10" "b < 10" "digit_char a = digit_char b"
  then have "(of_char (digit_char a) :: nat) = of_char (digit_char b)"
    by simp
  with \<open>a < 10\<close> \<open>b < 10\<close> show "a = b"
    by (simp add: of_char_digit_char)
qed simp

lemma digit_char_0: "digit_char 0 = CHR ''0''"
  by code_simp

lemma nat_str_1: "n < 10 \<Longrightarrow> nat_str n = [digit_char n]"
  by (subst nat_str.simps) simp

lemma nat_str_2: "10 \<le> n \<Longrightarrow> n < 100 \<Longrightarrow> nat_str n = digits2 n"
  by (subst nat_str.simps) (simp add: nat_str_1 digits2_def)

lemma div_10_div_10: "n div 10 div 10 = n div 100" for n :: nat
  by (simp add: div_mult2_eq [symmetric])

lemma mod_100_div_10: "n mod 100 div 10 = n div 10 mod 10" for n :: nat
  using mod_mult2_eq [of n 10 10] by simp

lemma mod_100_mod_10: "n mod 100 mod 10 = n mod 10" for n :: nat
  by (simp add: mod_mod_cancel)

lemma div_10_div_100: "n div 10 div 100 = n div 100 div 10" for n :: nat
  by (simp add: div_mult2_eq [symmetric])

lemma div_mod_eq_iff: "a div k = b div k \<and> a mod k = b mod k \<longleftrightarrow> a = b"
  for a b :: nat
  by (metis div_mult_mod_eq)


lemma nat_str_3:
  assumes "100 \<le> n" "n < 1000"
  shows "nat_str n = digit_char (n div 100) # digits2 (n mod 100)"
proof -
  from assms have "nat_str n = nat_str (n div 10) @ [digit_char (n mod 10)]"
    by (subst nat_str.simps) simp
  also from assms have "nat_str (n div 10) = digits2 (n div 10)"
    by (intro nat_str_2) simp_all
  finally show ?thesis
    using assms by (simp add: digits2_def div_10_div_10 mod_100_div_10 mod_100_mod_10)
qed

lemma nat_str_4:
  assumes "1000 \<le> n" "n < 10000"
  shows "nat_str n = digits2 (n div 100) @ digits2 (n mod 100)"
proof -
  from assms have "nat_str n = nat_str (n div 10) @ [digit_char (n mod 10)]"
    by (subst nat_str.simps) simp
  also from assms have "nat_str (n div 10) =
      digit_char (n div 10 div 100) # digits2 (n div 10 mod 100)"
    by (intro nat_str_3) simp_all
  finally show ?thesis
    using assms
    by (simp add: digits2_def div_10_div_100 mod_100_div_10 mod_100_mod_10 div_10_div_10)
qed

lemma replicate_small:
  "replicate 2 x = [x, x]" "replicate 3 x = [x, x, x]"
  by (simp_all add: numeral_2_eq_2 numeral_3_eq_3)

lemma zero_pad_2: "n < 100 \<Longrightarrow> zero_pad 2 (nat_str n) = digits2 n"
  by (cases "n < 10") (simp_all add: nat_str_1 nat_str_2 zero_pad_def digits2_def digit_char_0)

lemma zero_pad_4:
  assumes "n < 10000"
  shows "zero_pad 4 (nat_str n) = digits2 (n div 100) @ digits2 (n mod 100)"
proof -
  consider "n < 10" | "10 \<le> n" "n < 100" | "100 \<le> n" "n < 1000" | "1000 \<le> n"
    by linarith
  then show ?thesis
  proof cases
    case 1
    then show ?thesis
      by (simp add: nat_str_1 zero_pad_def digits2_def digit_char_0 replicate_small)
  next
    case 2
    then show ?thesis
      by (simp add: nat_str_2 zero_pad_def digits2_def digit_char_0 replicate_small)
  next
    case 3
    then show ?thesis
      by (simp add: nat_str_3 zero_pad_def digits2_def digit_char_0)
  next
    case 4
    with assms show ?thesis
      by (simp add: nat_str_4 zero_pad_def digits2_def)
  qed
qed


lemma digits2_eq_iff: "a < 100 \<Longrightarrow> b < 100 \<Longrightarrow> digits2 a = digits2 b \<longleftrightarrow> a = b"
proof -
  assume "a < 100" "b < 100"
  then have "a div 10 < 10" "b div 10 < 10" "a mod 10 < 10" "b mod 10 < 10"
    by simp_all
  then have "digits2 a = digits2 b \<longleftrightarrow> a div 10 = b div 10 \<and> a mod 10 = b mod 10"
    by (simp add: digits2_def digit_char_eq_iff)
  also have "\<dots> \<longleftrightarrow> a = b"
    by (rule div_mod_eq_iff)
  finally show ?thesis .
qed

lemma length_digits2: "length (digits2 n) = 2"
  by (simp add: digits2_def)


lemma iso_date_digits:
  assumes "valid_date d"
  shows "iso_date d = digits2 (year d div 100) @ digits2 (year d mod 100) @ ''-'' @
     digits2 (month d) @ ''-'' @ digits2 (day d)"
  using assms by (simp add: iso_date_def valid_date_def zero_pad_2 zero_pad_4)


lemma iso_date_eq_iff:
  assumes "valid_date a" "valid_date b"
  shows "iso_date a = iso_date b \<longleftrightarrow> a = b"
proof -
  from assms have b: "year a div 100 < 100" "year b div 100 < 100" "year a mod 100 < 100"
    "year b mod 100 < 100" "month a < 100" "month b < 100" "day a < 100" "day b < 100"
    by (auto simp: valid_date_def less_mult_imp_div_less)
  have "iso_date a = iso_date b \<longleftrightarrow>
     year a div 100 = year b div 100 \<and> year a mod 100 = year b mod 100 \<and>
     month a = month b \<and> day a = day b"
    unfolding iso_date_digits [OF assms(1)] iso_date_digits [OF assms(2)]
    using b
    by (simp add: length_digits2 digits2_eq_iff)
  also have "\<dots> \<longleftrightarrow> year a = year b \<and> month a = month b \<and> day a = day b"
    using div_mod_eq_iff [of "year a" 100 "year b"] by blast
  also have "\<dots> \<longleftrightarrow> a = b"
    by auto
  finally show ?thesis .
qed

section \<open>The aggregation query\<close>

lemma read_float_column_map:
  "read_float_column col = map (null_float (list_all (\<lambda>x. x = None) col)) col"
  by (auto simp: read_float_column_def null_float_def list_all_iff split: option.splits)

lemma set_map_filter: "set (List.map_filter f xs) = {y. \<exists>x \<in> set xs. f x = Some y}"
  by (induction xs) (auto split: option.splits)

lemma set_group_keys:
  "set (group_keys rows) = {k. \<exists>r \<in> set rows. sql_DATE (timestamp r) = Some k}"
  by (simp add: group_keys_def set_map_filter)



lemma analyze_performance_map:
  "\<exists>b. analyze_performance store s e =
     map (\<lambda>k. metrics_row b k (filter (\<lambda>r. sql_DATE (timestamp r) = Some k) (selected store s e)))
       (group_keys (selected store s e))"
  unfolding analyze_performance_def Let_def selected_def [symmetric] read_float_column_map
  by (rule exI [of _ "list_all (\<lambda>x. x = None)
           (map (\<lambda>x. sql_AVG
                      (map processing_time
                        (filter (\<lambda>r. sql_DATE (timestamp r) = Some x)
                          (selected store s e))))
             (group_keys (selected store s e)))"])
     (simp add: zip_map2 zip_map1 zip_same_conv_map o_def metrics_row_def split_def)

text \<open>A selected group is the whole of the store's rows of that date.\<close>

lemma filter_selected:
  assumes "k \<in> set (group_keys (selected store s e))"
  shows "filter (\<lambda>r. sql_DATE (timestamp r) = Some k) (selected store s e) =
         filter (\<lambda>r. sql_DATE (timestamp r) = Some k) store"
    and "iso_date s \<le> k" and "k \<le> iso_date e"
    and "filter (\<lambda>r. sql_DATE (timestamp r) = Some k) store \<noteq> []"
proof -
  from assms obtain r where r: "r \<in> set store" "where_between (iso_date s) (iso_date e) r"
      "sql_DATE (timestamp r) = Some k"
    by (auto simp: set_group_keys selected_def)
  then show range: "iso_date s \<le> k" "k \<le> iso_date e"
    by (simp_all add: where_between_def)
  then show "filter (\<lambda>r. sql_DATE (timestamp r) = Some k) (selected store s e) =
         filter (\<lambda>r. sql_DATE (timestamp r) = Some k) store"
    unfolding selected_def filter_filter
    by (intro filter_cong refl) (auto simp: where_between_def)
  from r show "filter (\<lambda>r. sql_DATE (timestamp r) = Some k) store \<noteq> []"
    by (auto simp: filter_empty_conv)
qed

lemma group_keys_selected:
  "set (group_keys (selected store s e)) =
     {k. iso_date s \<le> k \<and> k \<le> iso_date e \<and> (\<exists>r \<in> set store. sql_DATE (timestamp r) = Some k)}"
  by (auto simp: set_group_keys selected_def where_between_def)

lemma analyze_performance_rows:
  assumes "m \<in> set (analyze_performance store s e)"
  obtains b k where "k \<in> set (group_keys (selected store s e))"
    and "m = metrics_row b k (filter (\<lambda>r. sql_DATE (timestamp r) = Some k) store)"
proof -
  from analyze_performance_map [of store s e] assms obtain b k
    where "k \<in> set (group_keys (selected store s e))"
      and "m = metrics_row b k (filter (\<lambda>r. sql_DATE (timestamp r) = Some k) (selected store s e))"
    by auto
  then show thesis
    using that filter_selected(1) by metis
qed

lemma analyze_performance_dates:
  "map date (analyze_performance store s e) = group_keys (selected store s e)"
proof -
  obtain b where "analyze_performance store s e =
     map (\<lambda>k. metrics_row b k (filter (\<lambda>r. sql_DATE (timestamp r) = Some k) (selected store s e)))
       (group_keys (selected store s e))"
    using analyze_performance_map by blast
  then show ?thesis
    by (simp add: o_def metrics_row_def)
qed

lemma sum_case_error: "sum_list (map case_error g) = int (length (filter (\<lambda>r. error_code r \<noteq> None) g))"
  by (induction g) (auto simp: case_error_def)

lemma sum_case_breach: "sum_list (map case_breach g) = int (length (filter breach g))"
  by (induction g) (auto simp: case_breach_def breach_def split: option.splits)


lemma sql_DATE_row_date: "sql_DATE (timestamp r) = map_option iso_date (row_date r)"
  by (simp add: sql_DATE_def row_date_def option.map_comp o_def)

lemma stored_dates_validD:
  "stored_dates_valid store \<Longrightarrow> r \<in> set store \<Longrightarrow> row_date r = Some d \<Longrightarrow> valid_date d"
  by (auto simp: stored_dates_valid_def list_all_iff)

lemma transactions_on_text:
  assumes "stored_dates_valid store" "valid_date d"
  shows "filter (\<lambda>r. sql_DATE (timestamp r) = Some (iso_date d)) store = transactions_on store d"
  unfolding transactions_on_def
proof (rule filter_cong [OF refl])
  fix r assume r: "r \<in> set store"
  show "(sql_DATE (timestamp r) = Some (iso_date d)) = (row_date r = Some d)"
  proof (cases "row_date r")
    case None
    then show ?thesis by (simp add: sql_DATE_row_date)
  next
    case (Some d')
    with assms(1) r have "valid_date d'" by (rule stored_dates_validD)
    with Some assms(2) show ?thesis
      by (simp add: sql_DATE_row_date iso_date_eq_iff)
  qed
qed





section \<open>A store of five rows\<close>

lemma iso_date_examples:
  "iso_date day_a = ''2024-03-05''" "iso_date day_b = ''2024-03-06''"
  "iso_date day_c = ''2024-03-08''"
  by code_simp+

lemma selected_example:
  "filter (where_between ''2024-03-05'' ''2024-03-06'') store_a = take 3 store_a"
  by (simp add: store_a_def where_between_def sql_DATE_def iso_date_examples)

lemma group_keys_example:
  "group_keys (take 3 store_a) = [''2024-03-05'', ''2024-03-06'']"
  by (simp add: store_a_def group_keys_def sql_DATE_def iso_date_examples)

lemma analyze_performance_example:
  "analyze_performance store_a day_a day_b =
     [\<lparr> date = ''2024-03-05'', total_transactions = 2, avg_response_time = PyFloat (Finite (3 / 2)),
        error_rate = 50, sla_breaches = 0 \<rparr>,
      \<lparr> date = ''2024-03-06'', total_transactions = 1, avg_response_time = PyFloat (Finite 5),
        error_rate = 0, sla_breaches = 1 \<rparr>]"
  unfolding analyze_performance_def Let_def iso_date_examples selected_example group_keys_example
  by (simp add: store_a_def sql_DATE_def iso_date_examples sql_AVG_def read_float_column_def
        case_error_def case_breach_def double_sum_def round_double_examples)



section \<open>Evaluator and report\<close>

lemma action_list_number:
  assumes "py_gt (avg_response_time m) 4 = Inr slow"
  shows "action_list m = Inr (
     (if slow then [''- URGENT: Investigate high response times - SLA breach detected''] else []) @
     (if error_rate m > 1 then [''- Analyze error patterns and implement corrective measures'']
      else []) @
     (if sla_breaches m > 0
      then [''- Review '' @ int_str (sla_breaches m) @ '' transactions exceeding response time SLA'']
      else []))"
  using assms by (simp add: action_list_def Let_def)

lemma generate_action_items_scenario:
  "generate_action_items metrics_scenario =
     Inr (''- Analyze error patterns and implement corrective measures'' @ newline @
          ''- Review 3 transactions exceeding response time SLA'')"
proof -
  have "int_str 3 = ''3''" by code_simp
  then show ?thesis
    by (simp add: generate_action_items_def action_list_def metrics_scenario_def float_1_8_def
        Let_def)
qed

lemma format_report_not_no_data: "format_report d m \<noteq> Inr no_data_message"
  by (auto simp: format_report_def no_data_message_def newline_def split: sum.splits)

lemma format_report_zero:
  "\<exists>text. format_report d metrics_zero = Inr text"
  by (simp add: format_report_def metrics_zero_def generate_action_items_def action_list_def
      Let_def split: sum.splits)

lemma selected_same_date:
  "selected store d d = filter (\<lambda>r. sql_DATE (timestamp r) = Some (iso_date d)) store"
  unfolding selected_def
  by (rule filter_cong [OF refl]) (auto simp: where_between_def split: option.splits)

lemma analyze_performance_selected:
  "analyze_performance store s e = analyze_performance (selected store s e) s e"
  by (simp add: analyze_performance_def selected_def)

lemma analyze_performance_empty_iff:
  "analyze_performance store d d = [] \<longleftrightarrow>
     (\<forall>r \<in> set store. sql_DATE (timestamp r) \<noteq> Some (iso_date d))"
proof -
  have "analyze_performance store d d = [] \<longleftrightarrow> map date (analyze_performance store d d) = []"
    by simp
  also have "\<dots> \<longleftrightarrow> set (group_keys (selected store d d)) = {}"
    by (simp add: analyze_performance_dates)
  also have "\<dots> \<longleftrightarrow> (\<forall>r \<in> set store. sql_DATE (timestamp r) \<noteq> Some (iso_date d))"
    by (auto simp: group_keys_selected)
  finally show ?thesis .
qed

lemma generate_daily_report_no_data:
  "generate_daily_report store d = Inr no_data_message \<longleftrightarrow>
     (\<forall>r \<in> set store. sql_DATE (timestamp r) \<noteq> Some (iso_date d))"
  unfolding analyze_performance_empty_iff [symmetric]
  by (simp add: generate_daily_report_def format_report_not_no_data split: list.splits)

lemma generate_daily_report_frame:
  assumes "filter (\<lambda>r. sql_DATE (timestamp r) = Some (iso_date d)) store1 =
           filter (\<lambda>r. sql_DATE (timestamp r) = Some (iso_date d)) store2"
  shows "generate_daily_report store1 d = generate_daily_report store2 d"
proof -
  have "analyze_performance store1 d d = analyze_performance (selected store1 d d) d d"
    by (rule analyze_performance_selected)
  also have "\<dots> = analyze_performance (selected store2 d d) d d"
    using assms by (simp add: selected_same_date)
  also have "\<dots> = analyze_performance store2 d d"
    by (rule analyze_performance_selected [symmetric])
  finally show ?thesis
    by (simp add: generate_daily_report_def)
qed

section \<open>Claims about the aggregator\<close>



text \<open>
  C5. Every entry that analyze_performance produces, for any store and any range, has
  an error rate between 0 and 100, a number of breaches between 0 and the number of
  transactions, and at least one transaction.
\<close>

theorem analyze_performance_bounds:
  assumes "m \<in> set (analyze_performance store s e)"
  shows "0 \<le> error_rate m \<and> error_rate m \<le> 100 \<and> 0 \<le> sla_breaches m \<and>
     sla_breaches m \<le> total_transactions m \<and> total_transactions m \<ge> 1"
proof -
  from assms obtain b k where k: "k \<in> set (group_keys (selected store s e))"
    and m: "m = metrics_row b k (filter (\<lambda>r. sql_DATE (timestamp r) = Some k) store)"
    by (rule analyze_performance_rows)
  define g where "g = filter (\<lambda>r. sql_DATE (timestamp r) = Some k) store"
  have ne: "g \<noteq> []"
    unfolding g_def using k by (rule filter_selected(4))
  then have len: "0 < length g" by simp
  from ne have l1: "1 \<le> int (length g)" by (cases g) simp_all
  have e: "length (filter (\<lambda>r. error_code r \<noteq> None) g) \<le> length g"
    and s: "length (filter breach g) \<le> length g"
    by simp_all
  define q :: rat
    where "q = of_nat (length (filter (\<lambda>r. error_code r \<noteq> None) g)) * 100 / of_nat (length g)"
  have "error_rate m = round_double q"
    by (simp add: m metrics_row_def sum_case_error g_def q_def)
  moreover have "0 \<le> q"
    by (simp add: q_def)
  moreover have "q \<le> 100"
    unfolding q_def using e len by (simp add: divide_le_eq)
  ultimately have "0 \<le> error_rate m" "error_rate m \<le> 100"
    by (simp_all add: round_double_bounds)
  moreover have "sla_breaches m = int (length (filter breach g))"
    and "total_transactions m = int (length g)"
    by (simp_all add: m metrics_row_def sum_case_breach g_def)
  ultimately show ?thesis
    using s l1 by simp
qed

theorem analyze_performance_bounds_witness:
  "\<lparr> date = ''2024-03-05'', total_transactions = 2, avg_response_time = PyFloat (Finite (3 / 2)),
      error_rate = 50, sla_breaches = 0 \<rparr> \<in> set (analyze_performance store_a day_a day_b) \<and>
   (0::rat) \<le> 50 \<and> (50::rat) \<le> 100 \<and> (0::int) \<le> 0 \<and> (0::int) \<le> 2 \<and> (2::int) \<ge> 1"
proof -
  have m: "\<lparr> date = ''2024-03-05'', total_transactions = 2,
      avg_response_time = PyFloat (Finite (3 / 2)), error_rate = 50, sla_breaches = 0 \<rparr>
      \<in> set (analyze_performance store_a day_a day_b)"
    by (simp add: analyze_performance_example)
  from analyze_performance_bounds [OF m] m show ?thesis
    by simp
qed

section \<open>Claims about the evaluator and the report\<close>

text \<open>
  C6. For a metrics record whose average is a number (an int or a float, NaN
  included), the list of action items is the urgent response-time item exactly when
  the average is above 4, then the error-pattern item exactly when the error rate is
  above 1, then the item naming the breach count exactly when there is a breach; each
  test is made whatever the others gave. The call returns the items joined by
  newlines, and the one sentence that no action is required when the list is empty.
  The record of the scenario (average 1.8, error rate 2.0, 3 breaches) gives the
  error-pattern item and the item for 3 breaches, and no urgent item.
\<close>

theorem generate_action_items_rules:
  "(py_gt (avg_response_time m) 4 = Inr slow \<longrightarrow>
     (\<exists>items.
        items =
          (if slow then [''- URGENT: Investigate high response times - SLA breach detected'']
           else []) @
          (if error_rate m > 1
           then [''- Analyze error patterns and implement corrective measures''] else []) @
          (if sla_breaches m > 0
           then [''- Review '' @ int_str (sla_breaches m) @
                 '' transactions exceeding response time SLA'']
           else []) \<and>
        action_list m = Inr items \<and>
        generate_action_items m =
          Inr (if items = [] then ''- No immediate actions required''
               else join newline items))) \<and>
   generate_action_items metrics_scenario =
     Inr (''- Analyze error patterns and implement corrective measures'' @ newline @
          ''- Review 3 transactions exceeding response time SLA'')"
proof -
  have "generate_action_items m =
      Inr (if items = [] then ''- No immediate actions required'' else join newline items)"
    if "action_list m = Inr items" for items
    using that by (simp add: generate_action_items_def)
  then show ?thesis
    using action_list_number [of m slow] generate_action_items_scenario by blast
qed

theorem generate_action_items_rules_witness:
  "py_gt (avg_response_time metrics_slow) 4 = Inr True \<and>
   generate_action_items metrics_slow =
     Inr (''- URGENT: Investigate high response times - SLA breach detected'' @ newline @
          ''- Review 2 transactions exceeding response time SLA'')"
proof -
  have s: "py_gt (avg_response_time metrics_slow) 4 = Inr True"
    by (simp add: metrics_slow_def)
  have n: "int_str 2 = ''2''"
    by code_simp
  from generate_action_items_rules [of metrics_slow True] s
  have "generate_action_items metrics_slow =
      Inr (if [''- URGENT: Investigate high response times - SLA breach detected''] @
              (if error_rate metrics_slow > 1
               then [''- Analyze error patterns and implement corrective measures''] else []) @
              (if sla_breaches metrics_slow > 0
               then [''- Review '' @ int_str (sla_breaches metrics_slow) @
                     '' transactions exceeding response time SLA'']
               else []) = [] then ''- No immediate actions required''
           else join newline
             ([''- URGENT: Investigate high response times - SLA breach detected''] @
              (if error_rate metrics_slow > 1
               then [''- Analyze error patterns and implement corrective measures''] else []) @
              (if sla_breaches metrics_slow > 0
               then [''- Review '' @ int_str (sla_breaches metrics_slow) @
                     '' transactions exceeding response time SLA'']
               else [])))"
    by auto
  with s n show ?thesis
    by (simp add: metrics_slow_def)
qed

text \<open>
  C7. generate_daily_report returns the fixed message that no data is available
  exactly when the store has no transaction whose date is the date asked for; for a
  store of valid dates that is when the date has no transactions. The message is not
  the text of any rendered report: whatever the date and the metrics, all zero
  included, the formatted report differs from it, and the record of zero metrics does
  render.
\<close>

theorem report_no_data_signal:
  "(generate_daily_report store d = Inr no_data_message \<longleftrightarrow>
      (\<forall>r \<in> set store. sql_DATE (timestamp r) \<noteq> Some (iso_date d))) \<and>
   (stored_dates_valid store \<longrightarrow> valid_date d \<longrightarrow> transactions_on store d = [] \<longrightarrow>
      generate_daily_report store d = Inr no_data_message) \<and>
   format_report d' m \<noteq> Inr no_data_message \<and>
   (\<exists>text. format_report d' metrics_zero = Inr text \<and> text \<noteq> no_data_message)"
proof -
  have "generate_daily_report store d = Inr no_data_message"
    if "stored_dates_valid store" "valid_date d" "transactions_on store d = []"
  proof -
    from that have "filter (\<lambda>r. sql_DATE (timestamp r) = Some (iso_date d)) store = []"
      by (simp add: transactions_on_text)
    then show ?thesis
      by (simp add: generate_daily_report_no_data filter_empty_conv)
  qed
  moreover have "\<exists>text. format_report d' metrics_zero = Inr text \<and> text \<noteq> no_data_message"
    using format_report_zero [of d'] format_report_not_no_data [of d' metrics_zero] by auto
  ultimately show ?thesis
    using generate_daily_report_no_data [of store d] format_report_not_no_data [of d' m]
    by blast
qed

theorem report_no_data_signal_witness:
  "stored_dates_valid store_a \<and> valid_date day_d \<and> transactions_on store_a day_d = [] \<and>
   generate_daily_report store_a day_d = Inr no_data_message"
proof -
  have a: "stored_dates_valid store_a"
    by (simp add: stored_dates_valid_def store_a_def row_date_def valid_date_def
        day_a_def day_b_def day_c_def)
  have b: "valid_date day_d"
    by (simp add: valid_date_def day_d_def)
  have c: "transactions_on store_a day_d = []"
    by (simp add: transactions_on_def store_a_def row_date_def day_a_def day_b_def day_c_def
        day_d_def)
  from report_no_data_signal [of store_a day_d] a b c show ?thesis
    by blast
qed

text \<open>
  C8. The claim: the formatter is a function of the metrics it is given and does not
  read the store. The code's generate_daily_report is given a date only and queries the
  store itself: on the same date, two stores give two different texts.
\<close>

theorem generate_daily_report_reads_store:
  "generate_daily_report store_a day_a \<noteq> generate_daily_report [] day_a"
proof -
  have "generate_daily_report [] day_a = Inr no_data_message"
    by (simp add: generate_daily_report_no_data)
  moreover have "generate_daily_report store_a day_a \<noteq> Inr no_data_message"
    by (simp add: generate_daily_report_no_data store_a_def sql_DATE_def iso_date_examples)
  ultimately show ?thesis by simp
qed

text \<open>
  C8 as amended: generate_daily_report computes the metrics of the date from the store,
  by analyze_performance on the range from the date to itself, and formats the first
  row of the result, or returns the no-data message when there is none. It reads no
  more of the store than the transactions of that date: two stores with the same rows
  of the date give the same report.
\<close>

theorem generate_daily_report_depends_on_day:
  "generate_daily_report store d =
     (case analyze_performance store d d of
        [] \<Rightarrow> Inr no_data_message
      | m # rest \<Rightarrow> format_report d m) \<and>
   (filter (\<lambda>r. sql_DATE (timestamp r) = Some (iso_date d)) store1 =
    filter (\<lambda>r. sql_DATE (timestamp r) = Some (iso_date d)) store2 \<longrightarrow>
      generate_daily_report store1 d = generate_daily_report store2 d)"
  using generate_daily_report_frame [of d store1 store2]
  by (simp add: generate_daily_report_def)

theorem generate_daily_report_depends_on_day_witness:
  "filter (\<lambda>r. sql_DATE (timestamp r) = Some (iso_date day_a)) store_a =
   filter (\<lambda>r. sql_DATE (timestamp r) = Some (iso_date day_a)) (take 3 store_a) \<and>
   store_a \<noteq> take 3 store_a \<and>
   generate_daily_report store_a day_a = generate_daily_report (take 3 store_a) day_a"
proof -
  have f: "filter (\<lambda>r. sql_DATE (timestamp r) = Some (iso_date day_a)) store_a =
      filter (\<lambda>r. sql_DATE (timestamp r) = Some (iso_date day_a)) (take 3 store_a)"
    by (simp add: store_a_def sql_DATE_def iso_date_examples)
  have n: "store_a \<noteq> take 3 store_a"
    by (simp add: store_a_def)
  from generate_daily_report_depends_on_day [of store_a day_a store_a "take 3 store_a"] f n
  show ?thesis by blast
qed

end
